theory Spec2Isabelle
  imports Complex_Main "HOL-Library.Log_Nat" "HOL-Library.Code_Target_Numeral"
begin

section \<open>The host language: strings, numbers, arrays\<close>

text \<open>
  The reading-ingestion and polling logic lives in the top-level component
  (\<^verbatim>\<open>src/App.tsx\<close>). It is written against a handful of built-ins of the host
  language; this section embeds the part of each that the component relies on.

  A payload is a \<open>string\<close>: a list of 8-bit characters, read as the code units
  \<open>0..255\<close>. On that range the built-ins below agree with the host language wherever
  the component inspects their result (comparison with \<^verbatim>\<open>'WET'\<close> and
  \<^verbatim>\<open>'MIXED'\<close>, splitting at a comma).
\<close>

text \<open>White space as \<^verbatim>\<open>String.prototype.trim\<close> understands it, within the code units
  \<open>0..255\<close>: TAB, LF, VT, FF, CR, SPACE and NO-BREAK SPACE.\<close>

definition isWhiteSpace :: "char \<Rightarrow> bool" where
  "isWhiteSpace c = (of_char c \<in> {9, 10, 11, 12, 13, 32, 160 :: nat})"

definition trim :: "string \<Rightarrow> string" where
  "trim s = rev (dropWhile isWhiteSpace (rev (dropWhile isWhiteSpace s)))"

text \<open>Case mapping of the letters \<open>a..z\<close> and \<open>A..Z\<close>; every other character is its
  own image.\<close>

definition toUpperChar :: "char \<Rightarrow> char" where
  "toUpperChar c =
     (let n = of_char c :: nat in if 97 \<le> n \<and> n \<le> 122 then char_of (n - 32) else c)"

definition toLowerChar :: "char \<Rightarrow> char" where
  "toLowerChar c =
     (let n = of_char c :: nat in if 65 \<le> n \<and> n \<le> 90 then char_of (n + 32) else c)"

definition toUpperCase :: "string \<Rightarrow> string" where
  "toUpperCase s = map toUpperChar s"

definition toLowerCase :: "string \<Rightarrow> string" where
  "toLowerCase s = map toLowerChar s"

text \<open>\<^verbatim>\<open>s.split(',')\<close>: the pieces between the separators, in order. The result is never
  empty: a string without separator is its own single piece, and the empty string splits
  into one empty piece.\<close>

fun split :: "string \<Rightarrow> char \<Rightarrow> string list" where
  "split [] sep = [[]]"
| "split (c # cs) sep =
     (if c = sep then [] # split cs sep
      else (c # hd (split cs sep)) # tl (split cs sep))"

text \<open>\<^verbatim>\<open>s.includes(pat)\<close>: \<open>pat\<close> occurs in \<open>s\<close> as a contiguous block (case-sensitive).\<close>

fun startsWith :: "string \<Rightarrow> string \<Rightarrow> bool" where
  "startsWith s [] = True"
| "startsWith [] (p # ps) = False"
| "startsWith (c # cs) (p # ps) = (c = p \<and> startsWith cs ps)"

fun includes_str :: "string \<Rightarrow> string \<Rightarrow> bool" where
  "includes_str [] pat = startsWith [] pat"
| "includes_str (c # cs) pat = (startsWith (c # cs) pat \<or> includes_str cs pat)"

text \<open>Reading an array element: \<^verbatim>\<open>parts[i]\<close> is \<^verbatim>\<open>undefined\<close> (here \<open>None\<close>) beyond
  the end of the array.\<close>

definition element :: "'a list \<Rightarrow> nat \<Rightarrow> 'a option" where
  "element xs i = (if i < length xs then Some (xs ! i) else None)"

text \<open>\<^verbatim>\<open>[...].slice(-n)\<close>: the last \<open>n\<close> elements, all of them when there are fewer.\<close>

definition slice_last :: "nat \<Rightarrow> 'a list \<Rightarrow> 'a list" where
  "slice_last n xs = drop (length xs - n) xs"

text \<open>
  Numbers. A value of the host language's number type is not-a-number, an infinity or a
  finite value of the 64-bit binary format; a finite value is kept as the rational it
  denotes. The two zeros of the format are one value here.
\<close>

datatype jsnum = NaN | PosInfinity | NegInfinity | Fin rat

text \<open>Truthiness of a number, for \<^verbatim>\<open>x || y\<close>: not-a-number and zero are falsy.\<close>

fun truthy :: "jsnum \<Rightarrow> bool" where
  "truthy NaN = False"
| "truthy (Fin q) = (q \<noteq> 0)"
| "truthy PosInfinity = True"
| "truthy NegInfinity = True"

definition or_else :: "jsnum \<Rightarrow> jsnum \<Rightarrow> jsnum" where
  "or_else x y = (if truthy x then x else y)"

text \<open>
  \<^verbatim>\<open>parseFloat\<close>: skip leading white space, then read the longest prefix that is a
  decimal literal (an optional sign, then \<^verbatim>\<open>Infinity\<close>, or digits with an optional
  fraction and an optional exponent); not-a-number when there is no such prefix, and
  otherwise the number value of the literal's mathematical value (the language leaves
  the rounding of a literal with more than 20 significant digits to the engine; here,
  as in the engines, the exact value is rounded).
\<close>

definition isDigit :: "char \<Rightarrow> bool" where
  "isDigit c = (48 \<le> (of_char c :: nat) \<and> (of_char c :: nat) \<le> 57)"

definition digitsValue :: "string \<Rightarrow> nat" where
  "digitsValue ds = foldl (\<lambda>acc d. 10 * acc + (of_char d - 48)) 0 ds"

definition scale10 :: "rat \<Rightarrow> int \<Rightarrow> rat" where
  "scale10 q e = (if 0 \<le> e then q * 10 ^ nat e else q / 10 ^ nat (- e))"

definition exponentPart :: "string \<Rightarrow> int" where
  "exponentPart r =
     (case r of
        [] \<Rightarrow> 0
      | c # r1 \<Rightarrow>
          if c = CHR ''e'' \<or> c = CHR ''E'' then
            (case r1 of
               [] \<Rightarrow> 0
             | d # r2 \<Rightarrow>
                 if d = CHR ''-'' then
                   (if takeWhile isDigit r2 = [] then 0
                    else - int (digitsValue (takeWhile isDigit r2)))
                 else if d = CHR ''+'' then int (digitsValue (takeWhile isDigit r2))
                 else int (digitsValue (takeWhile isDigit r1)))
          else 0)"

text \<open>
  The number value of a positive rational \<open>a / b\<close>: the nearest value of the binary
  format, a tie going to the even significand. The significand has 53 bits, the
  exponent of its last place is at least \<open>-1074\<close>, and a result of \<open>2 ^ 1024\<close> or
  more is infinite.
\<close>

definition pow2 :: "int \<Rightarrow> rat" where
  "pow2 e = (if 0 \<le> e then of_int (2 ^ nat e) else 1 / of_int (2 ^ nat (- e)))"

text \<open>The integer \<open>k\<close> with \<open>2 ^ k \<le> a / b < 2 ^ (k + 1)\<close>, for positive \<open>a\<close> and \<open>b\<close>.\<close>

definition floorLog2 :: "int \<Rightarrow> int \<Rightarrow> int" where
  "floorLog2 a b =
     (let k = bitlen a - bitlen b
      in if (if 0 \<le> k then b * 2 ^ nat k \<le> a else b \<le> a * 2 ^ nat (- k)) then k
         else k - 1)"

text \<open>The integer nearest to \<open>n / d\<close>, for positive \<open>d\<close>; the even one of two.\<close>

definition roundHalfEven :: "int \<Rightarrow> int \<Rightarrow> int" where
  "roundHalfEven n d =
     (let f = n div d; r = n mod d
      in if 2 * r < d then f
         else if d < 2 * r then f + 1
         else if even f then f else f + 1)"

definition toNumber :: "rat \<Rightarrow> jsnum" where
  "toNumber q =
     (if q \<le> 0 then Fin 0
      else
        (let a = fst (quotient_of q);
             b = snd (quotient_of q);
             e = max (floorLog2 a b - 52) (- 1074);
             m = (if 0 \<le> e then roundHalfEven a (b * 2 ^ nat e)
                  else roundHalfEven (a * 2 ^ nat (- e)) b)
         in if 1024 < bitlen m + e then PosInfinity else Fin (of_int m * pow2 e)))"

definition negate :: "jsnum \<Rightarrow> jsnum" where
  "negate x =
     (case x of
        NaN \<Rightarrow> NaN
      | PosInfinity \<Rightarrow> NegInfinity
      | NegInfinity \<Rightarrow> PosInfinity
      | Fin q \<Rightarrow> Fin (- q))"

text \<open>The mathematical value of an unsigned decimal literal at the head of a string.\<close>

definition unsignedLiteral :: "string \<Rightarrow> rat option" where
  "unsignedLiteral u =
     (let ip = takeWhile isDigit u;
          r1 = dropWhile isDigit u;
          fp = (case r1 of [] \<Rightarrow> [] | c # r \<Rightarrow> if c = CHR ''.'' then takeWhile isDigit r else []);
          r2 = (case r1 of [] \<Rightarrow> [] | c # r \<Rightarrow> if c = CHR ''.'' then dropWhile isDigit r else r1)
      in if ip = [] \<and> fp = [] then None
         else Some (scale10 (of_nat (digitsValue (ip @ fp))) (exponentPart r2 - int (length fp))))"

definition parseFloat :: "string \<Rightarrow> jsnum" where
  "parseFloat s =
     (let t = dropWhile isWhiteSpace s;
          neg = (case t of [] \<Rightarrow> False | c # _ \<Rightarrow> c = CHR ''-'');
          u = (case t of [] \<Rightarrow> [] | c # r \<Rightarrow> if c = CHR ''-'' \<or> c = CHR ''+'' then r else t)
      in if take 8 u = ''Infinity'' then (if neg then NegInfinity else PosInfinity)
         else (case unsignedLiteral u of
                 None \<Rightarrow> NaN
               | Some q \<Rightarrow> if neg then negate (toNumber q) else toNumber q))"

text \<open>\<^verbatim>\<open>parseFloat(parts[0])\<close> of a missing element converts \<^verbatim>\<open>undefined\<close> to the text
  \<^verbatim>\<open>"undefined"\<close> first, which is not a number.\<close>

definition parseFloat_element :: "string option \<Rightarrow> jsnum" where
  "parseFloat_element x = (case x of None \<Rightarrow> parseFloat ''undefined'' | Some s \<Rightarrow> parseFloat s)"

text \<open>\<^verbatim>\<open>n.toString()\<close> of a non-negative integer: its decimal digits.\<close>

fun toString :: "nat \<Rightarrow> string" where
  "toString n =
     (if n < 10 then [char_of (48 + n)]
      else toString (n div 10) @ [char_of (48 + n mod 10)])"

section \<open>The data model\<close>

text \<open>
  The moisture status is the enum \<^verbatim>\<open>MoistureStatus\<close> of the module the component
  imports as \<^verbatim>\<open>./types\<close>, with the members \<^verbatim>\<open>DRY\<close>, \<^verbatim>\<open>WET\<close> and \<^verbatim>\<open>UNKNOWN\<close>.
  At run time the enum is an object with one property per member, and reading a property
  it does not have gives \<^verbatim>\<open>undefined\<close>, here \<open>None\<close>. The component reads the four
  properties \<^verbatim>\<open>DRY\<close>, \<^verbatim>\<open>MIXED\<close>, \<^verbatim>\<open>WET\<close> and \<^verbatim>\<open>UNKNOWN\<close>; the enum has no
  member \<^verbatim>\<open>MIXED\<close>, so \<^verbatim>\<open>MoistureStatus.MIXED\<close> is \<^verbatim>\<open>undefined\<close>.
\<close>

datatype MoistureStatus = DRY | WET | UNKNOWN

definition MoistureStatus_property :: "string \<Rightarrow> MoistureStatus option" where
  "MoistureStatus_property name =
     map_of [(''DRY'', DRY), (''WET'', WET), (''UNKNOWN'', UNKNOWN)] name"

definition MoistureStatus_DRY :: "MoistureStatus option" where
  "MoistureStatus_DRY = MoistureStatus_property ''DRY''"

definition MoistureStatus_MIXED :: "MoistureStatus option" where
  "MoistureStatus_MIXED = MoistureStatus_property ''MIXED''"

definition MoistureStatus_WET :: "MoistureStatus option" where
  "MoistureStatus_WET = MoistureStatus_property ''WET''"

definition MoistureStatus_UNKNOWN :: "MoistureStatus option" where
  "MoistureStatus_UNKNOWN = MoistureStatus_property ''UNKNOWN''"

text \<open>A reading; its moisture is whatever value the component stored.\<close>

record Reading =
  reading_id :: string
  timestamp :: nat
  temperature :: jsnum
  moisture :: "MoistureStatus option"

datatype ConnectionStatus = Disconnected | Connecting | Connected

text \<open>The device and its characteristic are opaque handles of the wireless stack.\<close>

datatype BluetoothDevice = Device string

datatype BluetoothRemoteGATTCharacteristic = Characteristic nat

text \<open>What the browser offers, and what it has been asked to show.\<close>

datatype NotificationPermission = Granted | Denied | Default

record SystemNotification =
  title :: string
  body :: string
  icon :: string

text \<open>
  The state the component works on: its state variables and references, followed by the
  browser's side (whether the notification interface exists, the permission, whether the
  device can vibrate, and the notifications and vibration patterns issued so far).
\<close>

record AppState =
  connectionStatus :: ConnectionStatus
  readings :: "Reading list"
  latestReading :: "Reading option"
  notification :: "string option"
  nextUpdateIn :: int
  isSimulationMode :: bool
  deviceRef :: "BluetoothDevice option"
  characteristicRef :: "BluetoothRemoteGATTCharacteristic option"
  notificationInWindow :: bool
  notificationPermission :: NotificationPermission
  vibrateSupported :: bool
  systemNotifications :: "SystemNotification list"
  vibrations :: "nat list list"

text \<open>The component's state when it is mounted, in a given browser.\<close>

definition initialState :: "bool \<Rightarrow> NotificationPermission \<Rightarrow> bool \<Rightarrow> AppState" where
  "initialState inWindow permission canVibrate =
     \<lparr>connectionStatus = Disconnected, readings = [], latestReading = None,
      notification = None, nextUpdateIn = 0, isSimulationMode = False,
      deviceRef = None, characteristicRef = None,
      notificationInWindow = inWindow, notificationPermission = permission,
      vibrateSupported = canVibrate, systemNotifications = [], vibrations = []\<rparr>"

datatype error = TypeError

section \<open>The operations of the component\<close>

text \<open>\<^verbatim>\<open>triggerNotification\<close>: the banner always; a system notification when the
  interface exists and permission is granted; a vibration when the device supports it.\<close>

definition triggerNotification :: "string \<Rightarrow> AppState \<Rightarrow> AppState" where
  "triggerNotification message s =
     (let s1 = s\<lparr>notification := Some message\<rparr>;
          s2 = (if notificationInWindow s1 \<and> notificationPermission s1 = Granted
                then s1\<lparr>systemNotifications := systemNotifications s1 @
                        [\<lparr>title = ''SilicaSense Alert'', body = message, icon = ''/icon.png''\<rparr>]\<rparr>
                else s1)
      in if vibrateSupported s2
         then s2\<lparr>vibrations := vibrations s2 @ [[200, 100, 200, 100, 500]]\<rparr>
         else s2)"

text \<open>
  The first half of \<^verbatim>\<open>processData\<close>: from the payload to the new reading. The
  temperature and the moisture status start at a default and are assigned in either
  branch. Calling \<^verbatim>\<open>trim\<close> on a missing second part would raise a type error. The two
  readings of the clock (\<^verbatim>\<open>Date.now()\<close> for the identifier, \<^verbatim>\<open>new Date()\<close> for the
  timestamp) are arguments.
\<close>

definition processData_newReading :: "nat \<Rightarrow> nat \<Rightarrow> string \<Rightarrow> error + Reading" where
  "processData_newReading dateNow newDate dataString =
     (let parts = split dataString CHR '','';
          temp = Fin 0;
          moist = MoistureStatus_UNKNOWN
      in case
           (if 2 \<le> length parts then
              (let temp = parseFloat_element (element parts 0)
               in case element parts 1 of
                    None \<Rightarrow> Inl TypeError
                  | Some part1 \<Rightarrow>
                      (let moistureStr = toUpperCase (trim part1);
                           moist = (if moistureStr = ''WET'' then MoistureStatus_WET
                                    else if moistureStr = ''MIXED'' then MoistureStatus_MIXED
                                    else MoistureStatus_DRY)
                       in Inr (temp, moist)))
            else
              (let temp = or_else (parseFloat dataString) (Fin 0);
                   moist = (if includes_str dataString ''WET'' then MoistureStatus_WET
                            else if includes_str dataString ''MIXED'' then MoistureStatus_MIXED
                            else MoistureStatus_DRY)
               in Inr (temp, moist)))
         of
           Inl e \<Rightarrow> Inl e
         | Inr (temp, moist) \<Rightarrow>
             Inr \<lparr>reading_id = toString dateNow, timestamp = newDate,
                  temperature = temp, moisture = moist\<rparr>)"

definition alertMessage :: string where
  "alertMessage = ''Excessive moisture detected! Silica gel is saturated.''"

text \<open>
  \<^verbatim>\<open>processData\<close>: the new reading becomes the latest one and joins the history, of
  which the last 20 are kept; then the alert and the countdown follow the status.
\<close>

definition processData :: "nat \<Rightarrow> nat \<Rightarrow> string \<Rightarrow> AppState \<Rightarrow> error + AppState" where
  "processData dateNow newDate dataString s =
     (case processData_newReading dateNow newDate dataString of
        Inl e \<Rightarrow> Inl e
      | Inr newReading \<Rightarrow>
          (let s1 = s\<lparr>latestReading := Some newReading\<rparr>;
               s2 = s1\<lparr>readings := slice_last 20 (readings s1 @ [newReading])\<rparr>
           in Inr (if moisture newReading = MoistureStatus_WET then
                     (triggerNotification alertMessage s2)\<lparr>nextUpdateIn := 30\<rparr>
                   else if moisture newReading = MoistureStatus_MIXED then
                     s2\<lparr>notification := None, nextUpdateIn := 120\<rparr>
                   else
                     s2\<lparr>notification := None, nextUpdateIn := 300\<rparr>)))"

text \<open>Successive calls of \<^verbatim>\<open>processData\<close>, one per arriving payload (each with its two
  clock readings), stopping at the first error.\<close>

fun processAll :: "(nat \<times> nat \<times> string) list \<Rightarrow> AppState \<Rightarrow> error + AppState" where
  "processAll [] s = Inr s"
| "processAll ((dateNow, newDate, dataString) # rest) s =
     (case processData dateNow newDate dataString s of
        Inl e \<Rightarrow> Inl e
      | Inr s' \<Rightarrow> processAll rest s')"

text \<open>\<^verbatim>\<open>onDisconnected\<close>, the handler of the device's disconnect event.\<close>

definition onDisconnected :: "AppState \<Rightarrow> AppState" where
  "onDisconnected s =
     s\<lparr>connectionStatus := Disconnected, deviceRef := None, characteristicRef := None,
       notification := Some ''Device Disconnected''\<rparr>"

text \<open>
  The polling timer. It runs while the link is up or the simulation is on; each tick
  applies the update below to the countdown. A tick that finds the countdown at 1 or
  less calls \<^verbatim>\<open>fetchReading\<close>, which is asynchronous: the tick's own result is the
  call it issued and the countdown it returned.
\<close>

datatype call = FetchReading

definition timerActive :: "AppState \<Rightarrow> bool" where
  "timerActive s = (\<not> (connectionStatus s \<noteq> Connected \<and> \<not> isSimulationMode s))"

definition tick :: "AppState \<Rightarrow> call list \<times> AppState" where
  "tick s =
     (let prev = nextUpdateIn s
      in if prev \<le> 1 then ([FetchReading], s\<lparr>nextUpdateIn := 5\<rparr>)
         else ([], s\<lparr>nextUpdateIn := prev - 1\<rparr>))"

text \<open>\<^verbatim>\<open>toggleSimulation\<close>.\<close>

definition toggleSimulation :: "AppState \<Rightarrow> AppState" where
  "toggleSimulation s =
     (if isSimulationMode s then
        s\<lparr>isSimulationMode := False, connectionStatus := Disconnected,
          readings := [], latestReading := None\<rparr>
      else
        s\<lparr>isSimulationMode := True, connectionStatus := Connected, nextUpdateIn := 1\<rparr>)"

section \<open>Case variants of a status token\<close>

text \<open>
  Two characters are the same letter when they are equal or one is the other with its
  case changed; a case variant of a token changes the case of any of its letters.
\<close>

definition sameLetter :: "char \<Rightarrow> char \<Rightarrow> bool" where
  "sameLetter c c' = (c' = c \<or> c' = toUpperChar c \<or> c' = toLowerChar c)"

definition caseVariant :: "string \<Rightarrow> string \<Rightarrow> bool" where
  "caseVariant m m' = list_all2 sameLetter m m'"

section \<open>Sample states\<close>

text \<open>A history that is full, and a component in simulation mode with one reading.\<close>

definition sampleReading :: "nat \<Rightarrow> Reading" where
  "sampleReading i =
     \<lparr>reading_id = toString i, timestamp = i, temperature = Fin 0,
      moisture = MoistureStatus_DRY\<rparr>"

definition fullHistoryState :: AppState where
  "fullHistoryState =
     (initialState True Granted True)\<lparr>readings := map sampleReading [0..<20]\<rparr>"

definition simulatingState :: AppState where
  "simulatingState =
     (initialState True Granted True)
       \<lparr>connectionStatus := Connected, isSimulationMode := True,
        readings := [sampleReading 0], latestReading := Some (sampleReading 0),
        nextUpdateIn := 7\<rparr>"

section \<open>Properties\<close>

subsection \<open>The members of the status enum\<close>

lemma member_values:
  "MoistureStatus_DRY = Some DRY"
  "MoistureStatus_WET = Some WET"
  "MoistureStatus_UNKNOWN = Some UNKNOWN"
  "MoistureStatus_MIXED = None"
  by (simp_all add: MoistureStatus_DRY_def MoistureStatus_WET_def MoistureStatus_UNKNOWN_def
        MoistureStatus_MIXED_def MoistureStatus_property_def)

subsection \<open>Splitting and searching\<close>

lemma split_nonempty: "split s sep \<noteq> []"
  by (induction s) auto

lemma hd_split: "hd (split s sep) = takeWhile (\<lambda>c. c \<noteq> sep) s"
  by (induction s) auto

lemma split_append: "split (a @ sep # b) sep = split a sep @ split b sep"
  by (induction a) (auto simp: split_nonempty)

lemma length_split: "length (split s sep) = Suc (count_list s sep)"
  by (induction s) (auto simp: split_nonempty)

lemma startsWith_iff: "startsWith s p \<longleftrightarrow> (\<exists>b. s = p @ b)"
  by (induction s p rule: startsWith.induct) auto

lemma includes_str_iff: "includes_str s p \<longleftrightarrow> (\<exists>a b. s = a @ p @ b)"
proof (induction s)
  case Nil
  then show ?case by (auto simp: startsWith_iff)
next
  case (Cons c cs)
  show ?case
  proof
    assume "includes_str (c # cs) p"
    then consider "startsWith (c # cs) p" | "includes_str cs p" by auto
    then show "\<exists>a b. c # cs = a @ p @ b"
    proof cases
      case 1
      then obtain b where "c # cs = p @ b" by (auto simp: startsWith_iff)
      then have "c # cs = [] @ p @ b" by simp
      then show ?thesis by blast
    next
      case 2
      then obtain a b where "cs = a @ p @ b" using Cons.IH by auto
      then have "c # cs = (c # a) @ p @ b" by simp
      then show ?thesis by blast
    qed
  next
    assume "\<exists>a b. c # cs = a @ p @ b"
    then obtain a b where ab: "c # cs = a @ p @ b" by auto
    show "includes_str (c # cs) p"
    proof (cases a)
      case Nil
      then have "startsWith (c # cs) p" using ab by (auto simp: startsWith_iff)
      then show ?thesis by simp
    next
      case (Cons x a')
      then have "cs = a' @ p @ b" using ab by simp
      then show ?thesis using Cons.IH by auto
    qed
  qed
qed

subsection \<open>The new reading\<close>

text \<open>The new reading of a payload with a second part, and of one without.\<close>

lemma newReading_delimited:
  assumes "2 \<le> length (split d CHR '','')"
  shows "processData_newReading dn nd d =
           Inr \<lparr>reading_id = toString dn, timestamp = nd,
                temperature = parseFloat (split d CHR '','' ! 0),
                moisture = (if toUpperCase (trim (split d CHR '','' ! 1)) = ''WET'' then MoistureStatus_WET
                            else if toUpperCase (trim (split d CHR '','' ! 1)) = ''MIXED'' then MoistureStatus_MIXED
                            else MoistureStatus_DRY)\<rparr>"
  using assms
  by (simp add: processData_newReading_def element_def parseFloat_element_def Let_def
        split_nonempty)

lemma newReading_fallback:
  assumes "\<not> 2 \<le> length (split d CHR '','')"
  shows "processData_newReading dn nd d =
           Inr \<lparr>reading_id = toString dn, timestamp = nd,
                temperature = or_else (parseFloat d) (Fin 0),
                moisture = (if includes_str d ''WET'' then MoistureStatus_WET
                            else if includes_str d ''MIXED'' then MoistureStatus_MIXED
                            else MoistureStatus_DRY)\<rparr>"
  using assms
  by (simp add: processData_newReading_def Let_def)

lemma newReading_total: "\<exists>r. processData_newReading dn nd d = Inr r"
  by (cases "2 \<le> length (split d CHR '','')")
     (simp_all only: newReading_delimited newReading_fallback sum.inject simp_thms)

lemma processData_Inr:
  assumes "processData_newReading dn nd d = Inr r"
  shows "processData dn nd d s =
           Inr (let s2 = s\<lparr>latestReading := Some r,
                           readings := slice_last 20 (readings s @ [r])\<rparr>
                in if moisture r = MoistureStatus_WET then
                     (triggerNotification alertMessage s2)\<lparr>nextUpdateIn := 30\<rparr>
                   else if moisture r = MoistureStatus_MIXED then
                     s2\<lparr>notification := None, nextUpdateIn := 120\<rparr>
                   else s2\<lparr>notification := None, nextUpdateIn := 300\<rparr>)"
  using assms by (simp add: processData_def Let_def)

lemma triggerNotification_frame:
  "latestReading (triggerNotification m s) = latestReading s"
  "readings (triggerNotification m s) = readings s"
  "notification (triggerNotification m s) = Some m"
  "nextUpdateIn (triggerNotification m s) = nextUpdateIn s"
  by (simp_all add: triggerNotification_def Let_def)

lemma processData_latest:
  assumes "processData_newReading dn nd d = Inr r"
  shows "\<exists>s'. processData dn nd d s = Inr s' \<and> latestReading s' = Some r \<and>
           readings s' = slice_last 20 (readings s @ [r])"
  using assms by (simp add: processData_Inr Let_def triggerNotification_frame)

subsection \<open>The history buffer's slice\<close>

lemma length_slice_last: "length (slice_last n xs) = min n (length xs)"
  by (simp add: slice_last_def)

lemma slice_last_snoc:
  "0 < n \<Longrightarrow> slice_last n (xs @ [x]) = slice_last (n - 1) xs @ [x]"
  by (simp add: slice_last_def)

lemma slice_last_all: "length xs \<le> n \<Longrightarrow> slice_last n xs = xs"
  by (simp add: slice_last_def)

lemma slice_last_full: "length xs = Suc n \<Longrightarrow> slice_last n xs = tl xs"
  by (simp add: slice_last_def drop_Suc)

lemma slice_last_slice_last:
  "slice_last n (slice_last n xs @ ys) = slice_last n (xs @ ys)"
proof (cases "length xs \<le> n")
  case True
  then show ?thesis by (simp add: slice_last_all)
next
  case False
  then have k: "length xs + length ys - n = length ys + (length xs - n)" by simp
  have "slice_last n (xs @ ys) = drop (length ys + (length xs - n)) (xs @ ys)"
    by (simp only: slice_last_def length_append k)
  also have "\<dots> = drop (length ys) (drop (length xs - n) (xs @ ys))"
    by (simp only: drop_drop)
  also have "\<dots> = drop (length ys) (slice_last n xs @ ys)"
    by (simp add: slice_last_def)
  also have "\<dots> = slice_last n (slice_last n xs @ ys)"
    using False by (simp add: slice_last_def)
  finally show ?thesis by simp
qed

subsection \<open>The fields of the new reading\<close>

lemma or_else_zero: "or_else x (Fin 0) = (if x = NaN then Fin 0 else x)"
  by (cases x) (simp_all add: or_else_def)

lemma newReading_fallback_fields:
  assumes "\<not> 2 \<le> length (split d CHR '','')"
    and "processData_newReading dn nd d = Inr r"
  shows "temperature r = (if parseFloat d = NaN then Fin 0 else parseFloat d)"
    and "moisture r = (if includes_str d ''WET'' then MoistureStatus_WET
                       else if includes_str d ''MIXED'' then MoistureStatus_MIXED else MoistureStatus_DRY)"
proof -
  let ?x = "\<lparr>reading_id = toString dn, timestamp = nd,
                temperature = or_else (parseFloat d) (Fin 0),
                moisture = (if includes_str d ''WET'' then MoistureStatus_WET
                            else if includes_str d ''MIXED'' then MoistureStatus_MIXED
                            else MoistureStatus_DRY)\<rparr>"
  have "Inr r = (Inr ?x :: error + Reading)"
    unfolding assms(2) [symmetric] by (rule newReading_fallback [OF assms(1)])
  then have eq: "r = ?x" by (simp only: sum.inject)
  show "temperature r = (if parseFloat d = NaN then Fin 0 else parseFloat d)"
    unfolding eq by (simp only: Reading.select_convs or_else_zero)
  show "moisture r = (if includes_str d ''WET'' then MoistureStatus_WET
                       else if includes_str d ''MIXED'' then MoistureStatus_MIXED else MoistureStatus_DRY)"
    unfolding eq by (simp only: Reading.select_convs)
qed

lemma newReading_delimited_fields:
  assumes "2 \<le> length (split d CHR '','')"
    and "processData_newReading dn nd d = Inr r"
  shows "temperature r = parseFloat (split d CHR '','' ! 0)"
    and "moisture r = (if toUpperCase (trim (split d CHR '','' ! 1)) = ''WET'' then MoistureStatus_WET
                       else if toUpperCase (trim (split d CHR '','' ! 1)) = ''MIXED'' then MoistureStatus_MIXED
                       else MoistureStatus_DRY)"
proof -
  let ?x = "\<lparr>reading_id = toString dn, timestamp = nd,
                temperature = parseFloat (split d CHR '','' ! 0),
                moisture = (if toUpperCase (trim (split d CHR '','' ! 1)) = ''WET'' then MoistureStatus_WET
                            else if toUpperCase (trim (split d CHR '','' ! 1)) = ''MIXED'' then MoistureStatus_MIXED
                            else MoistureStatus_DRY)\<rparr>"
  have "Inr r = (Inr ?x :: error + Reading)"
    unfolding assms(2) [symmetric] by (rule newReading_delimited [OF assms(1)])
  then have eq: "r = ?x" by (simp only: sum.inject)
  show "temperature r = parseFloat (split d CHR '','' ! 0)"
    unfolding eq by (simp only: Reading.select_convs)
  show "moisture r = (if toUpperCase (trim (split d CHR '','' ! 1)) = ''WET'' then MoistureStatus_WET
                       else if toUpperCase (trim (split d CHR '','' ! 1)) = ''MIXED'' then MoistureStatus_MIXED
                       else MoistureStatus_DRY)"
    unfolding eq by (simp only: Reading.select_convs)
qed

lemma newReading_moisture:
  assumes "processData_newReading dn nd d = Inr r"
  shows "moisture r \<in> {MoistureStatus_DRY, MoistureStatus_MIXED, MoistureStatus_WET}"
proof (cases "2 \<le> length (split d CHR '','')")
  case True
  show ?thesis unfolding newReading_delimited_fields(2) [OF True assms] by simp
next
  case False
  show ?thesis unfolding newReading_fallback_fields(2) [OF False assms] by simp
qed

lemma two_parts: "2 \<le> length (split (t @ CHR '','' # x) CHR '','')"
proof -
  have "1 \<le> length (split t CHR '','')" "1 \<le> length (split x CHR '','')"
    using split_nonempty [of t "CHR '',''"] split_nonempty [of x "CHR '',''"]
    by (simp_all add: Suc_le_eq)
  then show ?thesis by (simp add: split_append)
qed

subsection \<open>Alerts\<close>

lemma triggerNotification_effects:
  "systemNotifications (triggerNotification m s) =
     (if notificationInWindow s \<and> notificationPermission s = Granted
      then systemNotifications s @
             [\<lparr>title = ''SilicaSense Alert'', body = m, icon = ''/icon.png''\<rparr>]
      else systemNotifications s)"
  "vibrations (triggerNotification m s) =
     (if vibrateSupported s then vibrations s @ [[200, 100, 200, 100, 500]]
      else vibrations s)"
  by (simp_all add: triggerNotification_def Let_def)

subsection \<open>Successive calls\<close>

lemma processAll_readings:
  "\<exists>s' rs. map (\<lambda>(dn, nd, d). processData_newReading dn nd d) calls = map Inr rs \<and>
     processAll calls s = Inr s' \<and>
     (if calls = [] then s' = s
      else readings s' = slice_last 20 (readings s @ rs) \<and> latestReading s' = Some (last rs))"
proof (induction calls arbitrary: s)
  case Nil
  show ?case by simp
next
  case (Cons c calls)
  obtain dn nd d where c: "c = (dn, nd, d)" by (cases c) auto
  obtain r where r: "processData_newReading dn nd d = Inr r"
    using newReading_total by blast
  obtain s1 where s1: "processData dn nd d s = Inr s1" "latestReading s1 = Some r"
    "readings s1 = slice_last 20 (readings s @ [r])"
    using processData_latest [OF r] by blast
  obtain s' rs where IH:
    "map (\<lambda>(dn, nd, d). processData_newReading dn nd d) calls = map Inr rs"
    "processAll calls s1 = Inr s'"
    "if calls = [] then s' = s1
     else readings s' = slice_last 20 (readings s1 @ rs) \<and> latestReading s' = Some (last rs)"
    using Cons.IH [of s1] by blast
  have len: "length rs = length calls"
    using IH(1) by (metis length_map)
  have m: "map (\<lambda>(dn, nd, d). processData_newReading dn nd d) (c # calls) = map Inr (r # rs)"
    using IH(1) r c by simp
  have p: "processAll (c # calls) s = Inr s'"
    using s1(1) IH(2) c by simp
  have q: "readings s' = slice_last 20 (readings s @ (r # rs)) \<and>
           latestReading s' = Some (last (r # rs))"
  proof (cases "calls = []")
    case True
    then have "rs = []" using len by simp
    then show ?thesis using IH(3) True s1 by simp
  next
    case False
    then have ne: "rs \<noteq> []" using len by auto
    have "readings s' = slice_last 20 (slice_last 20 (readings s @ [r]) @ rs)"
      using IH(3) False s1(3) by simp
    also have "\<dots> = slice_last 20 ((readings s @ [r]) @ rs)"
      by (rule slice_last_slice_last)
    finally show ?thesis using IH(3) False ne by simp
  qed
  show ?case
    by (rule exI [of _ s'], rule exI [of _ "r # rs"]) (use m p q in simp)
qed

subsection \<open>Letter case and white space\<close>

lemma of_char_toUpperChar:
  "(of_char (toUpperChar c) :: nat) =
     (if 97 \<le> (of_char c :: nat) \<and> (of_char c :: nat) \<le> 122 then of_char c - 32 else of_char c)"
proof -
  have "(of_char c :: nat) - 32 < 256"
    using nat_of_char_less_256 [of c] by arith
  then show ?thesis by (simp add: toUpperChar_def Let_def)
qed

lemma of_char_toLowerChar:
  "(of_char (toLowerChar c) :: nat) =
     (if 65 \<le> (of_char c :: nat) \<and> (of_char c :: nat) \<le> 90 then of_char c + 32 else of_char c)"
  by (simp add: toLowerChar_def Let_def)

lemma char_eq_by_code: "(c = d) = ((of_char c :: nat) = of_char d)"
  by simp

lemma sameLetter_code:
  "sameLetter c c' \<Longrightarrow>
     (of_char c' :: nat) = of_char c \<or>
     (97 \<le> (of_char c :: nat) \<and> (of_char c :: nat) \<le> 122 \<and> (of_char c' :: nat) = of_char c - 32) \<or>
     (65 \<le> (of_char c :: nat) \<and> (of_char c :: nat) \<le> 90 \<and> (of_char c' :: nat) = of_char c + 32)"
  unfolding sameLetter_def char_eq_by_code [of c'] of_char_toUpperChar of_char_toLowerChar
  by (auto split: if_splits)

lemma sameLetter_upper: "sameLetter c c' \<Longrightarrow> toUpperChar c' = toUpperChar c"
  unfolding char_eq_by_code [of "toUpperChar c'"] of_char_toUpperChar
  using sameLetter_code [of c c'] by auto

lemma sameLetter_white: "sameLetter c c' \<Longrightarrow> isWhiteSpace c' = isWhiteSpace c"
  unfolding isWhiteSpace_def using sameLetter_code [of c c'] by auto

lemma sameLetter_comma: "sameLetter c c' \<Longrightarrow> (c' \<noteq> CHR '','') = (c \<noteq> CHR '','')"
  unfolding char_eq_by_code [of _ "CHR '',''"] using sameLetter_code [of c c'] by auto

lemma white_not_comma: "isWhiteSpace c \<Longrightarrow> c \<noteq> CHR '',''"
  unfolding isWhiteSpace_def by auto

lemma list_all2_takeWhile_agree:
  assumes "list_all2 R xs ys" and "\<And>x y. R x y \<Longrightarrow> P y = P x"
  shows "list_all2 R (takeWhile P xs) (takeWhile P ys)"
  using assms(1)
proof (induction rule: list_all2_induct)
  case Nil
  show ?case by simp
next
  case (Cons x xs y ys)
  then show ?case using assms(2) [of x y] by simp
qed

lemma list_all2_dropWhile_agree:
  assumes "list_all2 R xs ys" and "\<And>x y. R x y \<Longrightarrow> P y = P x"
  shows "list_all2 R (dropWhile P xs) (dropWhile P ys)"
  using assms(1)
proof (induction rule: list_all2_induct)
  case Nil
  show ?case by simp
next
  case (Cons x xs y ys)
  then show ?case using assms(2) [of x y] by simp
qed

lemma caseVariant_refl: "caseVariant m m"
  by (simp add: caseVariant_def sameLetter_def list_all2_refl)

lemma caseVariant_toUpperCase_self: "caseVariant m (toUpperCase m)"
  by (induction m) (simp_all add: caseVariant_def toUpperCase_def sameLetter_def)

lemma caseVariant_toLowerCase_self: "caseVariant m (toLowerCase m)"
  by (induction m) (simp_all add: caseVariant_def toLowerCase_def sameLetter_def)

lemma caseVariant_trim: "caseVariant k k' \<Longrightarrow> caseVariant (trim k) (trim k')"
  unfolding caseVariant_def trim_def
  by (intro iffD2 [OF list_all2_rev] list_all2_dropWhile_agree sameLetter_white) 

lemma caseVariant_toUpperCase: "caseVariant k k' \<Longrightarrow> toUpperCase k' = toUpperCase k"
  unfolding caseVariant_def toUpperCase_def
  by (induction rule: list_all2_induct) (simp_all add: sameLetter_upper)

lemma trim_padded:
  assumes "list_all isWhiteSpace pre" and "list_all isWhiteSpace post"
  shows "trim (pre @ k @ post) = trim k"
proof -
  have pre: "\<And>x. x \<in> set pre \<Longrightarrow> isWhiteSpace x"
    and post: "\<And>x. x \<in> set (rev post) \<Longrightarrow> isWhiteSpace x"
    using assms by (simp_all add: list_all_iff)
  have a: "dropWhile isWhiteSpace (pre @ k @ post) = dropWhile isWhiteSpace (k @ post)"
    using pre by simp
  show ?thesis
  proof (cases "list_all isWhiteSpace k")
    case True
    then have "\<forall>x\<in>set (k @ post). isWhiteSpace x"
      using assms(2) by (auto simp: list_all_iff)
    then have b: "dropWhile isWhiteSpace (k @ post) = []"
      by (simp only: dropWhile_eq_Nil_conv)
    have c: "dropWhile isWhiteSpace k = []"
      using True by (simp only: dropWhile_eq_Nil_conv list_all_iff)
    show ?thesis unfolding trim_def a b c by simp
  next
    case False
    then obtain x where x: "x \<in> set k" "\<not> isWhiteSpace x" by (auto simp: list_all_iff)
    then have "dropWhile isWhiteSpace (k @ post) = dropWhile isWhiteSpace k @ post"
      by simp
    then have b: "rev (dropWhile isWhiteSpace (pre @ k @ post)) =
                 rev post @ rev (dropWhile isWhiteSpace k)"
      by (simp add: a)
    have c: "dropWhile isWhiteSpace (rev post @ rev (dropWhile isWhiteSpace k)) =
               dropWhile isWhiteSpace (rev (dropWhile isWhiteSpace k))"
      by (rule dropWhile_append2) (rule post)
    show ?thesis unfolding trim_def b c by (rule refl)
  qed
qed

text \<open>The second part of a payload \<open>t , x\<close>.\<close>

lemma split_second:
  "split (t @ CHR '','' # x) CHR '','' ! 1 =
     (if 2 \<le> length (split t CHR '','') then split t CHR '','' ! 1
      else takeWhile (\<lambda>c. c \<noteq> CHR '','') x)"
proof -
  have ne: "split t CHR '','' \<noteq> []" "split x CHR '','' \<noteq> []"
    by (rule split_nonempty)+
  have len: "1 \<le> length (split t CHR '','')" using ne(1) by (simp add: Suc_le_eq)
  show ?thesis
  proof (cases "2 \<le> length (split t CHR '','')")
    case True
    then show ?thesis by (simp add: split_append nth_append)
  next
    case False
    with len have "length (split t CHR '','') = 1" by simp
    then show ?thesis using ne(2) False
      by (simp add: split_append nth_append hd_conv_nth [symmetric] hd_split)
  qed
qed

lemma second_part_variant:
  assumes "caseVariant m m'" "list_all isWhiteSpace pre" "list_all isWhiteSpace post"
  shows "toUpperCase (trim (takeWhile (\<lambda>c. c \<noteq> CHR '','') (pre @ m' @ post))) =
         toUpperCase (trim (takeWhile (\<lambda>c. c \<noteq> CHR '','') m))"
proof -
  let ?P = "\<lambda>c. c \<noteq> CHR '',''"
  have pre: "\<And>x. x \<in> set pre \<Longrightarrow> ?P x" and post: "\<And>x. x \<in> set post \<Longrightarrow> ?P x"
    using assms(2,3) white_not_comma by (auto simp: list_all_iff)
  have kv: "caseVariant (takeWhile ?P m) (takeWhile ?P m')"
    using assms(1) unfolding caseVariant_def
    by (intro list_all2_takeWhile_agree sameLetter_comma)
  have "\<exists>post'. list_all isWhiteSpace post' \<and>
          takeWhile ?P (m' @ post) = takeWhile ?P m' @ post'"
  proof (cases "\<forall>x\<in>set m'. ?P x")
    case True
    have e1: "takeWhile ?P post = post"
      by (rule takeWhile_eq_all_conv [THEN iffD2]) (use post in blast)
    have e2: "takeWhile ?P m' = m'"
      by (rule takeWhile_eq_all_conv [THEN iffD2]) (rule True)
    have "takeWhile ?P (m' @ post) = takeWhile ?P m' @ post"
      using True by (simp add: takeWhile_append e1 e2)
    then show ?thesis using assms(3) by blast
  next
    case False
    then have "takeWhile ?P (m' @ post) = takeWhile ?P m' @ []"
      by (auto simp: takeWhile_append)
    moreover have "list_all isWhiteSpace []" by simp
    ultimately show ?thesis by blast
  qed
  then obtain post' where post': "list_all isWhiteSpace post'"
    "takeWhile ?P (m' @ post) = takeWhile ?P m' @ post'" by blast
  have "takeWhile ?P (pre @ m' @ post) = pre @ takeWhile ?P m' @ post'"
    using pre post'(2) by simp
  then have "trim (takeWhile ?P (pre @ m' @ post)) = trim (takeWhile ?P m')"
    using trim_padded [OF assms(2) post'(1)] by simp
  then show ?thesis
    using caseVariant_toUpperCase [OF caseVariant_trim [OF kv]] by simp
qed

section \<open>The claims\<close>

text \<open>
  Claim C1 asks for the status \<open>MIXED\<close> when the trimmed, upper-cased second part
  equals \<^verbatim>\<open>'MIXED'\<close>. The enum has no such member: for the payload
  \<^verbatim>\<open>"37.5,MIXED"\<close>, which has two parts and the second part \<^verbatim>\<open>'MIXED'\<close>,
  \<^verbatim>\<open>processData\<close> stores a reading whose moisture is \<^verbatim>\<open>undefined\<close>.
\<close>

theorem processData_mixed_token:
  "2 \<le> length (split ''37.5,MIXED'' CHR '','') \<and>
   toUpperCase (trim (split ''37.5,MIXED'' CHR '','' ! 1)) = ''MIXED'' \<and>
   processData 5 7 ''37.5,MIXED'' (initialState True Granted True) =
     Inr ((initialState True Granted True)
            \<lparr>readings := [\<lparr>reading_id = ''5'', timestamp = 7,
                            temperature = Fin (75 / 2), moisture = None\<rparr>],
             latestReading := Some \<lparr>reading_id = ''5'', timestamp = 7,
                                    temperature = Fin (75 / 2), moisture = None\<rparr>,
             notification := None,
             nextUpdateIn := 120\<rparr>)"
proof -
  have len: "2 \<le> length (split ''37.5,MIXED'' CHR '','')" by simp
  have tok: "toUpperCase (trim (split ''37.5,MIXED'' CHR '','' ! 1)) = ''MIXED''"
    by code_simp
  have r: "processData_newReading 5 7 ''37.5,MIXED'' =
             Inr \<lparr>reading_id = ''5'', timestamp = 7,
                  temperature = Fin (75 / 2), moisture = None\<rparr>"
    by code_simp
  have p: "processData 5 7 ''37.5,MIXED'' (initialState True Granted True) =
     Inr ((initialState True Granted True)
            \<lparr>readings := [\<lparr>reading_id = ''5'', timestamp = 7,
                            temperature = Fin (75 / 2), moisture = None\<rparr>],
             latestReading := Some \<lparr>reading_id = ''5'', timestamp = 7,
                                    temperature = Fin (75 / 2), moisture = None\<rparr>,
             notification := None,
             nextUpdateIn := 120\<rparr>)"
    by (simp add: processData_Inr [OF r] Let_def member_values initialState_def slice_last_def)
  show ?thesis using len tok p by (intro conjI)
qed


text \<open>
  Claim C3, as amended. \<^verbatim>\<open>processData\<close> sets the in-app banner to the alert message
  if and only if the processed reading is \<open>WET\<close>, and clears it otherwise; it shows a
  system notification exactly when the reading is \<open>WET\<close>, the notification interface
  exists and permission is granted; it vibrates exactly when the reading is \<open>WET\<close> and
  the device supports vibration.
\<close>

theorem processData_alert:
  "\<exists>s' r. processData dateNow newDate dataString s = Inr s' \<and>
     latestReading s' = Some r \<and>
     (notification s' = Some alertMessage) = (moisture r = MoistureStatus_WET) \<and>
     (notification s' = None) = (moisture r \<noteq> MoistureStatus_WET) \<and>
     systemNotifications s' =
       (if moisture r = MoistureStatus_WET \<and> notificationInWindow s \<and>
           notificationPermission s = Granted
        then systemNotifications s @
               [\<lparr>title = ''SilicaSense Alert'', body = alertMessage, icon = ''/icon.png''\<rparr>]
        else systemNotifications s) \<and>
     vibrations s' =
       (if moisture r = MoistureStatus_WET \<and> vibrateSupported s
        then vibrations s @ [[200, 100, 200, 100, 500]]
        else vibrations s)"
proof -
  obtain r where r: "processData_newReading dateNow newDate dataString = Inr r"
    using newReading_total by blast
  show ?thesis
    by (simp add: processData_Inr [OF r] Let_def triggerNotification_frame
          triggerNotification_effects)
qed

text \<open>
  Claim C3 as stated fails: with permission denied and no vibration support, a \<open>WET\<close>
  reading raises the banner, but neither a system notification nor a vibration.
\<close>

theorem processData_alert_counterexample:
  "processData 5 7 ''37.5,WET'' (initialState True Denied False) =
     Inr ((initialState True Denied False)
            \<lparr>readings := [\<lparr>reading_id = ''5'', timestamp = 7,
                            temperature = Fin (75 / 2), moisture = MoistureStatus_WET\<rparr>],
             latestReading := Some \<lparr>reading_id = ''5'', timestamp = 7,
                                    temperature = Fin (75 / 2), moisture = MoistureStatus_WET\<rparr>,
             notification := Some alertMessage,
             nextUpdateIn := 30,
             systemNotifications := [], vibrations := []\<rparr>)"
proof -
  have r: "processData_newReading 5 7 ''37.5,WET'' =
             Inr \<lparr>reading_id = ''5'', timestamp = 7,
                  temperature = Fin (75 / 2), moisture = MoistureStatus_WET\<rparr>"
    by code_simp
  show ?thesis
    by (simp add: processData_Inr [OF r] Let_def triggerNotification_def initialState_def
          slice_last_def)
qed

text \<open>
  Claim C4. After every call of \<^verbatim>\<open>processData\<close> the history holds at most 20
  readings and ends with the reading just produced; it is the last 20 of the earlier
  history followed by the new reading, so a full history loses exactly its oldest entry;
  after any run of calls it is the last 20 of the earlier history followed by the
  readings produced, in arrival order.
\<close>

theorem history_buffer:
  "(\<exists>s' r. processData dateNow newDate dataString s = Inr s' \<and>
      latestReading s' = Some r \<and>
      length (readings s') \<le> 20 \<and>
      readings s' \<noteq> [] \<and> last (readings s') = r \<and>
      readings s' = slice_last 20 (readings s @ [r]) \<and>
      (length (readings s) < 20 \<longrightarrow> readings s' = readings s @ [r]) \<and>
      (length (readings s) = 20 \<longrightarrow> readings s' = tl (readings s) @ [r])) \<and>
   (calls \<noteq> [] \<longrightarrow>
      (\<exists>s' rs. map (\<lambda>(dn, nd, d). processData_newReading dn nd d) calls = map Inr rs \<and>
         processAll calls s = Inr s' \<and>
         readings s' = slice_last 20 (readings s @ rs)))"
proof -
  obtain r where r: "processData_newReading dateNow newDate dataString = Inr r"
    using newReading_total by blast
  obtain s' where s': "processData dateNow newDate dataString s = Inr s'"
    "latestReading s' = Some r" "readings s' = slice_last 20 (readings s @ [r])"
    using processData_latest [OF r] by blast
  have snoc: "readings s' = slice_last 19 (readings s) @ [r]"
    using s'(3) by (simp add: slice_last_snoc)
  have a: "length (readings s') \<le> 20"
    by (simp add: s'(3) length_slice_last)
  have b: "readings s' \<noteq> []" "last (readings s') = r"
    by (simp_all add: snoc)
  have c: "length (readings s) < 20 \<longrightarrow> readings s' = readings s @ [r]"
    by (simp add: snoc slice_last_all)
  have d: "length (readings s) = 20 \<longrightarrow> readings s' = tl (readings s) @ [r]"
    by (simp add: snoc slice_last_full)
  have one: "\<exists>s' r. processData dateNow newDate dataString s = Inr s' \<and>
      latestReading s' = Some r \<and>
      length (readings s') \<le> 20 \<and>
      readings s' \<noteq> [] \<and> last (readings s') = r \<and>
      readings s' = slice_last 20 (readings s @ [r]) \<and>
      (length (readings s) < 20 \<longrightarrow> readings s' = readings s @ [r]) \<and>
      (length (readings s) = 20 \<longrightarrow> readings s' = tl (readings s) @ [r])"
    by (rule exI [of _ s'], rule exI [of _ r]) (use s' a b c d in blast)
  have many: "calls \<noteq> [] \<longrightarrow>
      (\<exists>s' rs. map (\<lambda>(dn, nd, d). processData_newReading dn nd d) calls = map Inr rs \<and>
         processAll calls s = Inr s' \<and>
         readings s' = slice_last 20 (readings s @ rs))"
  proof
    assume ne: "calls \<noteq> []"
    obtain t rs where
      "map (\<lambda>(dn, nd, d). processData_newReading dn nd d) calls = map Inr rs"
      "processAll calls s = Inr t"
      "if calls = [] then t = s
       else readings t = slice_last 20 (readings s @ rs) \<and> latestReading t = Some (last rs)"
      using processAll_readings [of calls s] by blast
    then show "\<exists>s' rs. map (\<lambda>(dn, nd, d). processData_newReading dn nd d) calls = map Inr rs \<and>
         processAll calls s = Inr s' \<and>
         readings s' = slice_last 20 (readings s @ rs)"
      using ne by auto
  qed
  show ?thesis using one many by (rule conjI)
qed

text \<open>A full history drops its oldest reading; an empty one keeps the only reading.\<close>

theorem history_buffer_witness:
  "length (readings fullHistoryState) = 20 \<and>
   length (readings (initialState True Granted True)) < 20 \<and>
   [(21, 21, ''36.6,DRY'')] \<noteq> ([] :: (nat \<times> nat \<times> string) list) \<and>
   (\<exists>s' r. processData 20 20 ''36.6,DRY'' fullHistoryState = Inr s' \<and>
      latestReading s' = Some r \<and>
      readings s' = map sampleReading [1..<20] @ [r]) \<and>
   (\<exists>s' r. processData 20 20 ''36.6,DRY'' (initialState True Granted True) = Inr s' \<and>
      latestReading s' = Some r \<and> readings s' = [r]) \<and>
   (\<exists>s' rs. processAll [(21, 21, ''36.6,DRY'')] fullHistoryState = Inr s' \<and>
      readings s' = slice_last 20 (readings fullHistoryState @ rs))"
proof -
  have full: "length (readings fullHistoryState) = 20"
    by (simp add: fullHistoryState_def)
  have tl: "tl (readings fullHistoryState) = map sampleReading [1..<20]"
    by (simp add: fullHistoryState_def upt_conv_Cons [of 0 20])
  have few: "length (readings (initialState True Granted True)) < 20"
    "readings (initialState True Granted True) = []"
    by (simp_all add: initialState_def)
  have ne: "[(21, 21, ''36.6,DRY'')] \<noteq> ([] :: (nat \<times> nat \<times> string) list)" by simp
  have a: "\<exists>s' r. processData 20 20 ''36.6,DRY'' fullHistoryState = Inr s' \<and>
      latestReading s' = Some r \<and>
      readings s' = map sampleReading [1..<20] @ [r]"
    using history_buffer [of 20 20 "''36.6,DRY''" fullHistoryState "[(21, 21, ''36.6,DRY'')]"]
      full unfolding tl [symmetric] by blast
  have b: "\<exists>s' r. processData 20 20 ''36.6,DRY'' (initialState True Granted True) = Inr s' \<and>
      latestReading s' = Some r \<and> readings s' = [r]"
    using history_buffer [of 20 20 "''36.6,DRY''" "initialState True Granted True"
        "[(21, 21, ''36.6,DRY'')]"] few(1)
    unfolding few(2) append_Nil by blast
  have c: "\<exists>s' rs. processAll [(21, 21, ''36.6,DRY'')] fullHistoryState = Inr s' \<and>
      readings s' = slice_last 20 (readings fullHistoryState @ rs)"
    using history_buffer [of 20 20 "''36.6,DRY''" fullHistoryState "[(21, 21, ''36.6,DRY'')]"]
      ne by blast
  show ?thesis using full few(1) ne a b c by blast
qed

text \<open>
  Claim C5, as amended. The status \<^verbatim>\<open>processData\<close> infers from a payload is never
  \<open>UNKNOWN\<close>, the initial value that either branch overwrites; \<open>DRY\<close> and \<open>WET\<close> are
  each the inferred status of some payload.
\<close>

theorem inferred_status_never_unknown:
  "(\<exists>s' r. processData dateNow newDate dataString s = Inr s' \<and>
      latestReading s' = Some r \<and> moisture r \<noteq> MoistureStatus_UNKNOWN) \<and>
   (\<exists>s' r. processData 5 7 ''37.5,DRY'' (initialState True Granted True) = Inr s' \<and>
      latestReading s' = Some r \<and> moisture r = MoistureStatus_DRY) \<and>
   (\<exists>s' r. processData 5 7 ''37.5,WET'' (initialState True Granted True) = Inr s' \<and>
      latestReading s' = Some r \<and> moisture r = MoistureStatus_WET)"
proof -
  obtain r where r: "processData_newReading dateNow newDate dataString = Inr r"
    using newReading_total by blast
  obtain s' where s': "processData dateNow newDate dataString s = Inr s'"
    "latestReading s' = Some r"
    using processData_latest [OF r] by blast
  have "moisture r \<noteq> MoistureStatus_UNKNOWN"
    using newReading_moisture [OF r] by (auto simp: member_values)
  then have a: "\<exists>s' r. processData dateNow newDate dataString s = Inr s' \<and>
      latestReading s' = Some r \<and> moisture r \<noteq> MoistureStatus_UNKNOWN"
    using s' by blast
  have d: "processData_newReading 5 7 ''37.5,DRY'' =
             Inr \<lparr>reading_id = ''5'', timestamp = 7, temperature = Fin (75 / 2),
                  moisture = MoistureStatus_DRY\<rparr>"
    by code_simp
  have w: "processData_newReading 5 7 ''37.5,WET'' =
             Inr \<lparr>reading_id = ''5'', timestamp = 7, temperature = Fin (75 / 2),
                  moisture = MoistureStatus_WET\<rparr>"
    by code_simp
  have b: "\<exists>s' r. processData 5 7 ''37.5,DRY'' (initialState True Granted True) = Inr s' \<and>
      latestReading s' = Some r \<and> moisture r = MoistureStatus_DRY"
    using processData_latest [OF d, of "initialState True Granted True"]
    by (metis Reading.select_convs(4))
  have c: "\<exists>s' r. processData 5 7 ''37.5,WET'' (initialState True Granted True) = Inr s' \<and>
      latestReading s' = Some r \<and> moisture r = MoistureStatus_WET"
    using processData_latest [OF w, of "initialState True Granted True"]
    by (metis Reading.select_convs(4))
  show ?thesis using a b c by (intro conjI)
qed

text \<open>
  Claim C5 as stated fails: no payload makes \<^verbatim>\<open>processData\<close> infer \<open>UNKNOWN\<close>.
\<close>

theorem unknown_inferred_counterexample:
  "\<not> (\<exists>dateNow newDate dataString s s' r.
         processData dateNow newDate dataString s = Inr s' \<and>
         latestReading s' = Some r \<and> moisture r = MoistureStatus_UNKNOWN)"
proof
  assume "\<exists>dateNow newDate dataString s s' r.
         processData dateNow newDate dataString s = Inr s' \<and>
         latestReading s' = Some r \<and> moisture r = MoistureStatus_UNKNOWN"
  then obtain dateNow newDate dataString s s' r where
    h: "processData dateNow newDate dataString s = Inr s'" "latestReading s' = Some r"
       "moisture r = MoistureStatus_UNKNOWN"
    by blast
  obtain r0 where r0: "processData_newReading dateNow newDate dataString = Inr r0"
    using newReading_total by blast
  obtain t where "processData dateNow newDate dataString s = Inr t"
    "latestReading t = Some r0"
    using processData_latest [OF r0] by blast
  with h have "r0 = r" by simp
  then show False using newReading_moisture [OF r0] h(3) by (auto simp: member_values)
qed

text \<open>
  Claim C6. On a tick that finds the countdown above 1, the countdown decreases by
  exactly 1 and no read is issued; a read is issued exactly on a tick that finds the
  countdown at 1 or less, and that tick resets the countdown to 5; the reading then
  processed sets it to the cadence of its status.
\<close>

theorem tick_countdown:
  "(1 < nextUpdateIn s \<longrightarrow> tick s = ([], s\<lparr>nextUpdateIn := nextUpdateIn s - 1\<rparr>)) \<and>
   (FetchReading \<in> set (fst (tick s))) = (nextUpdateIn s \<le> 1) \<and>
   (nextUpdateIn s \<le> 1 \<longrightarrow> tick s = ([FetchReading], s\<lparr>nextUpdateIn := 5\<rparr>)) \<and>
   (\<exists>s'. processData dateNow newDate dataString (snd (tick s)) = Inr s' \<and>
         nextUpdateIn s' \<in> {30, 120, 300})"
proof -
  obtain r where r: "processData_newReading dateNow newDate dataString = Inr r"
    using newReading_total by blast
  have "\<exists>s'. processData dateNow newDate dataString (snd (tick s)) = Inr s' \<and>
         nextUpdateIn s' \<in> {30, 120, 300}"
    by (simp add: processData_Inr [OF r] Let_def triggerNotification_frame)
  then show ?thesis by (simp add: tick_def Let_def)
qed

text \<open>A tick at 3 counts down to 2; a tick at 1 issues the read and resets to 5.\<close>

theorem tick_countdown_witness:
  "tick ((initialState True Granted True)\<lparr>nextUpdateIn := 3\<rparr>) =
     ([], (initialState True Granted True)\<lparr>nextUpdateIn := 2\<rparr>) \<and>
   tick ((initialState True Granted True)\<lparr>nextUpdateIn := 1\<rparr>) =
     ([FetchReading], (initialState True Granted True)\<lparr>nextUpdateIn := 5\<rparr>)"
  using tick_countdown [of "(initialState True Granted True)\<lparr>nextUpdateIn := 3\<rparr>"]
        tick_countdown [of "(initialState True Granted True)\<lparr>nextUpdateIn := 1\<rparr>"]
  by simp

text \<open>
  Claim C7. On the disconnect event the connection status becomes disconnected, the
  device reference and the characteristic reference are cleared, and the notification
  is set to a disconnect message.
\<close>

theorem onDisconnected_teardown:
  "connectionStatus (onDisconnected s) = Disconnected \<and>
   deviceRef (onDisconnected s) = None \<and>
   characteristicRef (onDisconnected s) = None \<and>
   notification (onDisconnected s) = Some ''Device Disconnected''"
  by (simp add: onDisconnected_def)

text \<open>
  Claim C8 asks for the status \<open>MIXED\<close> when a payload without comma contains
  \<^verbatim>\<open>MIXED\<close>. For the payload \<^verbatim>\<open>"MIXED"\<close>, which has one part, contains
  \<^verbatim>\<open>MIXED\<close> and not \<^verbatim>\<open>WET\<close>, \<^verbatim>\<open>processData\<close> stores a reading whose temperature
  is 0 and whose moisture is \<^verbatim>\<open>undefined\<close>: the same missing member as under C1.
\<close>

theorem processData_mixed_fallback:
  "length (split ''MIXED'' CHR '','') < 2 \<and>
   \<not> includes_str ''MIXED'' ''WET'' \<and> includes_str ''MIXED'' ''MIXED'' \<and>
   processData 5 7 ''MIXED'' (initialState True Granted True) =
     Inr ((initialState True Granted True)
            \<lparr>readings := [\<lparr>reading_id = ''5'', timestamp = 7,
                            temperature = Fin 0, moisture = None\<rparr>],
             latestReading := Some \<lparr>reading_id = ''5'', timestamp = 7,
                                    temperature = Fin 0, moisture = None\<rparr>,
             notification := None,
             nextUpdateIn := 120\<rparr>)"
proof -
  have len: "length (split ''MIXED'' CHR '','') < 2" by simp
  have i: "\<not> includes_str ''MIXED'' ''WET''" "includes_str ''MIXED'' ''MIXED''"
    by code_simp+
  have r: "processData_newReading 5 7 ''MIXED'' =
             Inr \<lparr>reading_id = ''5'', timestamp = 7,
                  temperature = Fin 0, moisture = None\<rparr>"
    by code_simp
  have p: "processData 5 7 ''MIXED'' (initialState True Granted True) =
     Inr ((initialState True Granted True)
            \<lparr>readings := [\<lparr>reading_id = ''5'', timestamp = 7,
                            temperature = Fin 0, moisture = None\<rparr>],
             latestReading := Some \<lparr>reading_id = ''5'', timestamp = 7,
                                    temperature = Fin 0, moisture = None\<rparr>,
             notification := None,
             nextUpdateIn := 120\<rparr>)"
    by (simp add: processData_Inr [OF r] Let_def member_values initialState_def slice_last_def)
  show ?thesis using len i p by (intro conjI)
qed

text \<open>
  Claim C9. For every temperature part \<open>t\<close> and status token \<open>m\<close>, \<^verbatim>\<open>processData\<close>
  assigns the same moisture status to \<open>t , m\<close> as to \<open>t ,\<close> followed by a case variant
  of \<open>m\<close> with white space around it.
\<close>

theorem moisture_case_whitespace_invariant:
  assumes "caseVariant m m'" "list_all isWhiteSpace pre" "list_all isWhiteSpace post"
  shows "\<exists>s1 r s2 r'.
           processData dateNow newDate (t @ '','' @ m) s = Inr s1 \<and>
           latestReading s1 = Some r \<and>
           processData dateNow' newDate' (t @ '','' @ pre @ m' @ post) s' = Inr s2 \<and>
           latestReading s2 = Some r' \<and>
           moisture r' = moisture r"
proof -
  let ?d = "t @ CHR '','' # m" and ?d' = "t @ CHR '','' # pre @ m' @ post"
  obtain r where r: "processData_newReading dateNow newDate ?d = Inr r"
    using newReading_total by blast
  obtain r' where r': "processData_newReading dateNow' newDate' ?d' = Inr r'"
    using newReading_total by blast
  obtain s1 where s1: "processData dateNow newDate ?d s = Inr s1" "latestReading s1 = Some r"
    using processData_latest [OF r] by blast
  obtain s2 where s2: "processData dateNow' newDate' ?d' s' = Inr s2" "latestReading s2 = Some r'"
    using processData_latest [OF r'] by blast
  have "toUpperCase (trim (split ?d' CHR '','' ! 1)) = toUpperCase (trim (split ?d CHR '','' ! 1))"
    unfolding split_second using second_part_variant [OF assms] by simp
  then have "moisture r' = moisture r"
    unfolding newReading_delimited_fields(2) [OF two_parts r]
      newReading_delimited_fields(2) [OF two_parts r']
    by (simp only:)
  then show ?thesis
    using s1 s2 by (intro exI [of _ s1] exI [of _ r] exI [of _ s2] exI [of _ r']) simp
qed

text \<open>\<^verbatim>\<open>"37.5,mixed"\<close> and \<^verbatim>\<open>"37.5, MiXeD\r\n"\<close> get the same status.\<close>

theorem moisture_case_whitespace_invariant_witness:
  "caseVariant ''mixed'' ''MiXeD'' \<and> list_all isWhiteSpace '' '' \<and>
   list_all isWhiteSpace [CHR 0x0D, CHR 0x0A] \<and>
   (\<exists>s1 r s2 r'.
      processData 5 7 ''37.5,mixed'' (initialState True Granted True) = Inr s1 \<and>
      latestReading s1 = Some r \<and>
      processData 8 9 (''37.5, MiXeD'' @ [CHR 0x0D, CHR 0x0A]) (initialState True Granted True) = Inr s2 \<and>
      latestReading s2 = Some r' \<and>
      moisture r' = moisture r)"
proof -
  have a: "caseVariant ''mixed'' ''MiXeD''" by code_simp
  have b: "list_all isWhiteSpace '' ''" by code_simp
  have c: "list_all isWhiteSpace [CHR 0x0D, CHR 0x0A]" by code_simp
  show ?thesis
    using a b c
      moisture_case_whitespace_invariant [OF a b c, of 5 7 "''37.5''"
        "initialState True Granted True" 8 9 "initialState True Granted True"]
    by simp
qed

text \<open>
  Claim C10. Toggling the simulation off sets the connection status to disconnected,
  empties the history and clears the latest reading, and leaves the countdown unchanged;
  toggling it on sets the connection status to connected and the countdown to 1, and
  leaves the history and the latest reading unchanged.
\<close>

theorem toggleSimulation_frame:
  "(isSimulationMode s \<longrightarrow>
      \<not> isSimulationMode (toggleSimulation s) \<and>
      connectionStatus (toggleSimulation s) = Disconnected \<and>
      readings (toggleSimulation s) = [] \<and>
      latestReading (toggleSimulation s) = None \<and>
      nextUpdateIn (toggleSimulation s) = nextUpdateIn s) \<and>
   (\<not> isSimulationMode s \<longrightarrow>
      isSimulationMode (toggleSimulation s) \<and>
      connectionStatus (toggleSimulation s) = Connected \<and>
      nextUpdateIn (toggleSimulation s) = 1 \<and>
      readings (toggleSimulation s) = readings s \<and>
      latestReading (toggleSimulation s) = latestReading s)"
  by (simp add: toggleSimulation_def)

text \<open>Both directions, on the simulating state and on a state outside simulation.\<close>

theorem toggleSimulation_frame_witness:
  "isSimulationMode simulatingState \<and>
   connectionStatus (toggleSimulation simulatingState) = Disconnected \<and>
   readings (toggleSimulation simulatingState) = [] \<and>
   latestReading (toggleSimulation simulatingState) = None \<and>
   nextUpdateIn (toggleSimulation simulatingState) = 7 \<and>
   \<not> isSimulationMode fullHistoryState \<and>
   connectionStatus (toggleSimulation fullHistoryState) = Connected \<and>
   nextUpdateIn (toggleSimulation fullHistoryState) = 1 \<and>
   readings (toggleSimulation fullHistoryState) = map sampleReading [0..<20] \<and>
   latestReading (toggleSimulation fullHistoryState) = None"
proof -
  have on: "isSimulationMode simulatingState" "nextUpdateIn simulatingState = 7"
    by (simp_all add: simulatingState_def)
  have off: "\<not> isSimulationMode fullHistoryState"
    "readings fullHistoryState = map sampleReading [0..<20]"
    "latestReading fullHistoryState = None"
    by (simp_all add: fullHistoryState_def initialState_def)
  show ?thesis
    using toggleSimulation_frame [of simulatingState] toggleSimulation_frame [of fullHistoryState]
      on off
    by simp
qed

end
